theory Spec2Isabelle
  imports Main
begin

section \<open>Profile utilities: image probing\<close>

text \<open>
  The module constant \<^verbatim>\<open>DEFAULT_IMG\<close> of \<^verbatim>\<open>js/profile-utils.js\<close>.
\<close>

definition DEFAULT_IMG :: string where
  "DEFAULT_IMG = ''/staff/images/cta-default.jpg''"

subsection \<open>firstReachableImage\<close>

text \<open>
  \<^verbatim>\<open>firstReachableImage(urls)\<close> builds a promise whose executor only receives
  \<^verbatim>\<open>resolve\<close>. It keeps a counter \<^verbatim>\<open>index\<close> and one \<^verbatim>\<open>Image\<close> handle; each call of
  \<^verbatim>\<open>tryNext\<close> either resolves (the counter has passed the array) or assigns the next
  URL to \<^verbatim>\<open>img.src\<close> and waits for the handle's \<^verbatim>\<open>load\<close> or \<^verbatim>\<open>error\<close> event.

  The browser is a parameter of the model: it answers every URL assigned to
  \<^verbatim>\<open>img.src\<close> with one of the two events. The state records the counter and every
  value assigned to \<^verbatim>\<open>img.src\<close>, in order, so that the probes made are observable.
  The array holds strings, as the function's documentation says; the only falsy
  string is the empty one.
\<close>

datatype img_event = OnLoad | OnError

datatype js_error = Error string | TypeError string | YAMLException string

datatype 'a promise = Resolved 'a | Rejected js_error

record probe_state =
  index :: nat
  src_log :: "string list"

text \<open>\<^verbatim>\<open>xs[i]\<close> for an integer \<^verbatim>\<open>i\<close>: \<^verbatim>\<open>undefined\<close> (here \<open>None\<close>) out of range.\<close>

definition js_index :: "'a list \<Rightarrow> int \<Rightarrow> 'a option" where
  "js_index xs i = (if 0 \<le> i \<and> i < int (length xs) then Some (xs ! nat i) else None)"

text \<open>\<^verbatim>\<open>v || d\<close> for \<^verbatim>\<open>v\<close> a string or \<^verbatim>\<open>undefined\<close>.\<close>

definition js_or :: "string option \<Rightarrow> string \<Rightarrow> string" where
  "js_or v d = (case v of None \<Rightarrow> d | Some s \<Rightarrow> if s = [] then d else s)"

function tryNext ::
  "(string \<Rightarrow> img_event) \<Rightarrow> string list \<Rightarrow> probe_state \<Rightarrow> probe_state \<times> string promise"
where
  "tryNext browser urls st =
     (if index st \<ge> length urls
      then (st, Resolved (js_or (js_index urls (int (length urls) - 1)) DEFAULT_IMG))
      else
        let url = urls ! index st;
            st' = st\<lparr>index := index st + 1, src_log := src_log st @ [url]\<rparr>
        in (case browser url of
              OnLoad \<Rightarrow> (st', Resolved url)
            | OnError \<Rightarrow> tryNext browser urls st'))"
  by pat_completeness auto
termination
  by (relation "measure (\<lambda>(browser, urls, st). length urls - index st)") auto

definition firstReachableImage ::
  "(string \<Rightarrow> img_event) \<Rightarrow> string list \<Rightarrow> probe_state \<times> string promise"
where
  "firstReachableImage browser urls = tryNext browser urls \<lparr>index = 0, src_log = []\<rparr>"

text \<open>Two browsers for the examples: no image loads; exactly one URL loads.\<close>

definition never_loads :: "string \<Rightarrow> img_event" where
  "never_loads u = OnError"

definition loads_only :: "string \<Rightarrow> string \<Rightarrow> img_event" where
  "loads_only good u = (if u = good then OnLoad else OnError)"

section \<open>JavaScript values and strings\<close>

text \<open>
  The values the helpers receive: what a YAML roster decodes to. Numbers are the
  integers a roster holds (\<^verbatim>\<open>String(n)\<close> is then the decimal numeral); strings are ASCII
  text, one \<^typ>\<open>char\<close> per code unit, which is where \<^verbatim>\<open>trim\<close>, \<^verbatim>\<open>toLowerCase\<close> and
  \<^verbatim>\<open>toUpperCase\<close> are modelled.

  \<open>ascii s\<close> says that \<open>s\<close> is such a string: every code unit is below 128. What
  is proved of \<^verbatim>\<open>trim\<close>, \<^verbatim>\<open>toLowerCase\<close> and \<^verbatim>\<open>toUpperCase\<close> is proved of these
  strings, and of arrays whose elements are such strings.
\<close>

definition ascii :: "string \<Rightarrow> bool" where
  "ascii s = (\<forall>c \<in> set s. of_char c < (128::nat))"

datatype jsval =
    JUndefined
  | JNull
  | JBool bool
  | JNum int
  | JStr string
  | JArr "jsval list"
  | JObj "(string \<times> jsval) list"

text \<open>\<^verbatim>\<open>Boolean(v)\<close>, the truthiness that \<^verbatim>\<open>!v\<close>, \<^verbatim>\<open>v || d\<close> and \<^verbatim>\<open>filter(Boolean)\<close> test.\<close>

fun Boolean :: "jsval \<Rightarrow> bool" where
  "Boolean JUndefined = False"
| "Boolean JNull = False"
| "Boolean (JBool b) = b"
| "Boolean (JNum n) = (n \<noteq> 0)"
| "Boolean (JStr s) = (s \<noteq> [])"
| "Boolean (JArr xs) = True"
| "Boolean (JObj kvs) = True"

definition Boolean_str :: "string \<Rightarrow> bool" where
  "Boolean_str s = (s \<noteq> [])"

text \<open>\<^verbatim>\<open>xs.join(sep)\<close> on an array of strings.\<close>

fun join :: "string \<Rightarrow> string list \<Rightarrow> string" where
  "join sep [] = []"
| "join sep [x] = x"
| "join sep (x # y # ys) = x @ sep @ join sep (y # ys)"

definition digit_char :: "nat \<Rightarrow> char" where
  "digit_char d = ''0123456789'' ! d"

function nat_dec :: "nat \<Rightarrow> string" where
  "nat_dec n = (if n < 10 then [digit_char n] else nat_dec (n div 10) @ [digit_char (n mod 10)])"
  by pat_completeness auto
termination
  by (relation "measure id") auto

definition int_dec :: "int \<Rightarrow> string" where
  "int_dec i = (if i < 0 then CHR ''-'' # nat_dec (nat (- i)) else nat_dec (nat i))"

text \<open>
  \<^verbatim>\<open>String(v)\<close>. An array prints as its elements joined by commas, where
  \<^verbatim>\<open>undefined\<close> and \<^verbatim>\<open>null\<close> elements print as the empty string. A number prints
  as its decimal numeral, which is what the code prints for the integers of a
  roster (of magnitude below \<open>2^53\<close>); nothing below is stated about the print of
  a number.
\<close>

fun js_String :: "jsval \<Rightarrow> string" where
  "js_String JUndefined = ''undefined''"
| "js_String JNull = ''null''"
| "js_String (JBool b) = (if b then ''true'' else ''false'')"
| "js_String (JNum n) = int_dec n"
| "js_String (JStr s) = s"
| "js_String (JArr xs) =
     join '','' (map (\<lambda>x. if x = JUndefined \<or> x = JNull then [] else js_String x) xs)"
| "js_String (JObj kvs) = ''[object Object]''"

text \<open>
  \<^verbatim>\<open>s.split(sep)\<close> where the separator matches single characters (a one-character
  string, or a character class): the pieces between separators, empty pieces kept.
\<close>

fun split_acc :: "(char \<Rightarrow> bool) \<Rightarrow> string \<Rightarrow> string \<Rightarrow> string list" where
  "split_acc sep cur [] = [cur]"
| "split_acc sep cur (c # cs) =
     (if sep c then cur # split_acc sep [] cs else split_acc sep (cur @ [c]) cs)"

definition split :: "(char \<Rightarrow> bool) \<Rightarrow> string \<Rightarrow> string list" where
  "split sep s = split_acc sep [] s"

text \<open>
  White space and line terminators of ASCII: tab, LF, VT, FF, CR, space. These are
  the characters \<^verbatim>\<open>trim\<close> strips from a string of ASCII characters.
\<close>

definition js_whitespace :: "char \<Rightarrow> bool" where
  "js_whitespace c = (c \<in> set [CHR 0x09, CHR 0x0A, CHR 0x0B, CHR 0x0C, CHR 0x0D, CHR '' ''])"

definition trim :: "string \<Rightarrow> string" where
  "trim s = rev (dropWhile js_whitespace (rev (dropWhile js_whitespace s)))"

text \<open>
  The case mappings of ASCII: the 26 letters map to each other, every other ASCII
  character is left as it is.
\<close>

definition lower_char :: "char \<Rightarrow> char" where
  "lower_char c =
     (case map_of (zip ''ABCDEFGHIJKLMNOPQRSTUVWXYZ'' ''abcdefghijklmnopqrstuvwxyz'') c of
        Some l \<Rightarrow> l | None \<Rightarrow> c)"

definition upper_char :: "char \<Rightarrow> char" where
  "upper_char c =
     (case map_of (zip ''abcdefghijklmnopqrstuvwxyz'' ''ABCDEFGHIJKLMNOPQRSTUVWXYZ'') c of
        Some u \<Rightarrow> u | None \<Rightarrow> c)"

definition toLowerCase :: "string \<Rightarrow> string" where
  "toLowerCase s = map lower_char s"

definition toUpperCase :: "string \<Rightarrow> string" where
  "toUpperCase s = map upper_char s"

text \<open>\<^verbatim>\<open>s.charAt(0)\<close> (the empty string when there is none) and \<^verbatim>\<open>s.slice(1)\<close>.\<close>

definition charAt0 :: "string \<Rightarrow> string" where
  "charAt0 s = take 1 s"

definition slice1 :: "string \<Rightarrow> string" where
  "slice1 s = drop 1 s"

section \<open>formatNameFromSlug\<close>

text \<open>
  The callback of \<^verbatim>\<open>map\<close>: an empty word stays empty; otherwise the word is
  lower-cased and its first character upper-cased.
\<close>

definition format_word :: "string \<Rightarrow> string" where
  "format_word word =
     (if \<not> Boolean_str word then []
      else let lower = toLowerCase word in toUpperCase (charAt0 lower) @ slice1 lower)"

definition formatNameFromSlug :: "jsval \<Rightarrow> string" where
  "formatNameFromSlug str =
     (if \<not> Boolean str then []
      else join '' '' (map format_word (split (\<lambda>c. c = CHR ''-'') (js_String str))))"

section \<open>imageCandidates\<close>

text \<open>
  A person of the roster, as far as \<^verbatim>\<open>imageCandidates\<close> reads it: the optional
  \<^verbatim>\<open>photo\<close> string. The parameters with a default (\<^verbatim>\<open>years = []\<close>,
  \<^verbatim>\<open>imgYears = null\<close>, \<^verbatim>\<open>defaultImg = DEFAULT_IMG\<close>) are options, \<open>None\<close> the omitted
  argument; a missing or \<^verbatim>\<open>null\<close> person is \<open>None\<close>.
\<close>

record person =
  photo :: "string option"

definition exts :: "string list" where
  "exts = [''.jpg'', ''.png'', ''.jpeg'']"

text \<open>Step 1: the explicit photo, pushed when \<^verbatim>\<open>person && person.photo\<close> is truthy.\<close>

definition photo_candidates :: "person option \<Rightarrow> string list" where
  "photo_candidates p =
     (case p of
        None \<Rightarrow> []
      | Some r \<Rightarrow> (case photo r of None \<Rightarrow> [] | Some ph \<Rightarrow> if Boolean_str ph then [ph] else []))"

text \<open>Step 2: the canonical roster folder, one URL per extension.\<close>

definition roster_candidates :: "string \<Rightarrow> string \<Rightarrow> string list" where
  "roster_candidates imgRoster slug = map (\<lambda>ext. imgRoster @ ''/'' @ slug @ ext) exts"

text \<open>Step 3: the year folders, under the guard \<^verbatim>\<open>imgYears && years.length > 0\<close>.\<close>

definition year_candidates :: "string option \<Rightarrow> string list \<Rightarrow> string \<Rightarrow> string list" where
  "year_candidates imgYears years slug =
     (case imgYears of
        None \<Rightarrow> []
      | Some iy \<Rightarrow>
          if Boolean_str iy \<and> length years > 0
          then concat (map (\<lambda>year. map (\<lambda>ext. iy @ ''/'' @ year @ ''/'' @ slug @ ext) exts) years)
          else [])"

text \<open>A parameter with a default value: the default stands in for an omitted argument.\<close>

definition default_param :: "'a option \<Rightarrow> 'a \<Rightarrow> 'a" where
  "default_param arg dflt = (case arg of None \<Rightarrow> dflt | Some v \<Rightarrow> v)"

text \<open>The array \<^verbatim>\<open>candidates\<close> after step 4, before filtering.\<close>

definition candidates ::
  "string \<Rightarrow> person option \<Rightarrow> string list option \<Rightarrow> string \<Rightarrow> string option \<Rightarrow>
   string option \<Rightarrow> string list"
where
  "candidates slug p years_arg imgRoster imgYears defaultImg_arg =
     (let years = default_param years_arg [];
          defaultImg = default_param defaultImg_arg DEFAULT_IMG
      in photo_candidates p @ roster_candidates imgRoster slug @
         year_candidates imgYears years slug @ [defaultImg])"

text \<open>
  \<^verbatim>\<open>new Set(xs)\<close> adds the elements in order; a \<^verbatim>\<open>Set\<close> keeps insertion order and
  ignores an element it already has. \<^verbatim>\<open>Array.from\<close> lists it in that order.
\<close>

definition Set_add :: "'a list \<Rightarrow> 'a \<Rightarrow> 'a list" where
  "Set_add s x = (if x \<in> set s then s else s @ [x])"

definition new_Set :: "'a list \<Rightarrow> 'a list" where
  "new_Set xs = foldl Set_add [] xs"

definition Array_from :: "'a list \<Rightarrow> 'a list" where
  "Array_from s = s"

definition imageCandidates ::
  "string \<Rightarrow> person option \<Rightarrow> string list option \<Rightarrow> string \<Rightarrow> string option \<Rightarrow>
   string option \<Rightarrow> string list"
where
  "imageCandidates slug p years_arg imgRoster imgYears defaultImg_arg =
     Array_from (new_Set (filter Boolean_str
       (candidates slug p years_arg imgRoster imgYears defaultImg_arg)))"

section \<open>parseInterests\<close>

text \<open>
  The final \<^verbatim>\<open>filter\<close>, whose callback reads and updates the set \<^verbatim>\<open>seen\<close> of
  lower-cased keys.
\<close>

fun seen_filter :: "string set \<Rightarrow> string list \<Rightarrow> string list" where
  "seen_filter seen [] = []"
| "seen_filter seen (item # items) =
     (let key = toLowerCase item
      in if key \<in> seen then seen_filter seen items
         else item # seen_filter (insert key seen) items)"

text \<open>The character class \<^verbatim>\<open>[,;|\n]\<close>.\<close>

definition interest_delimiter :: "char \<Rightarrow> bool" where
  "interest_delimiter c = (c \<in> set [CHR '','', CHR '';'', CHR ''|'', CHR 0x0A])"

definition parseInterests :: "jsval \<Rightarrow> string list" where
  "parseInterests v =
     (if \<not> Boolean v then []
      else
        let items =
          (case v of
             JArr xs \<Rightarrow> filter Boolean_str (map (\<lambda>s. trim (js_String s)) xs)
           | _ \<Rightarrow> filter Boolean_str (map trim (split interest_delimiter (js_String v))))
        in seen_filter {} items)"

section \<open>fetchYAML\<close>

text \<open>
  The world outside: \<^verbatim>\<open>fetch(path)\<close> rejects or yields a response, whose
  \<^verbatim>\<open>text()\<close> rejects or yields the body; \<^verbatim>\<open>jsyaml.load(text)\<close> throws or returns a
  value. The console is the list of what \<^verbatim>\<open>console.error\<close> was given.
\<close>

record response =
  ok :: bool
  statusText :: string
  text_result :: "js_error + string"

record world =
  fetch :: "string \<Rightarrow> js_error + response"
  jsyaml_load :: "string \<Rightarrow> js_error + jsval"

type_synonym console = "(string \<times> js_error) list"

text \<open>The \<^verbatim>\<open>try\<close> block: \<open>Inl\<close> is what it throws, \<open>Inr\<close> what it returns.\<close>

definition fetchYAML_try :: "world \<Rightarrow> string \<Rightarrow> js_error + jsval" where
  "fetchYAML_try w path =
     (case fetch w path of
        Inl e \<Rightarrow> Inl e
      | Inr response \<Rightarrow>
          if \<not> ok response
          then Inl (Error (''Failed to fetch '' @ path @ '': '' @ statusText response))
          else (case text_result response of
                  Inl e \<Rightarrow> Inl e
                | Inr text \<Rightarrow>
                    (case jsyaml_load w text of
                       Inl e \<Rightarrow> Inl e
                     | Inr v \<Rightarrow> Inr (if Boolean v then v else JObj []))))"

text \<open>The \<^verbatim>\<open>catch\<close> block logs the error and returns \<^verbatim>\<open>{}\<close>.\<close>

definition fetchYAML :: "world \<Rightarrow> string \<Rightarrow> console \<Rightarrow> console \<times> jsval promise" where
  "fetchYAML w path con =
     (case fetchYAML_try w path of
        Inr v \<Rightarrow> (con, Resolved v)
      | Inl error \<Rightarrow> (con @ [(''Error fetching YAML:'', error)], Resolved (JObj [])))"

text \<open>
  Worlds for the examples: the host is unreachable; the server answers 404; the
  document is not YAML; the document is empty (\<^verbatim>\<open>jsyaml.load\<close> then returns
  \<^verbatim>\<open>undefined\<close>).
\<close>

definition unreachable_world :: world where
  "unreachable_world =
     \<lparr>fetch = (\<lambda>path. Inl (TypeError ''Failed to fetch'')),
      jsyaml_load = (\<lambda>text. Inr JUndefined)\<rparr>"

definition not_found_world :: world where
  "not_found_world =
     \<lparr>fetch = (\<lambda>path. Inr \<lparr>ok = False, statusText = ''Not Found'', text_result = Inr []\<rparr>),
      jsyaml_load = (\<lambda>text. Inr JUndefined)\<rparr>"

definition bad_yaml_world :: world where
  "bad_yaml_world =
     \<lparr>fetch = (\<lambda>path. Inr \<lparr>ok = True, statusText = ''OK'', text_result = Inr ''a: [''\<rparr>),
      jsyaml_load = (\<lambda>text. Inl (YAMLException ''unexpected end of the stream''))\<rparr>"

definition empty_yaml_world :: world where
  "empty_yaml_world =
     \<lparr>fetch = (\<lambda>path. Inr \<lparr>ok = True, statusText = ''OK'', text_result = Inr []\<rparr>),
      jsyaml_load = (\<lambda>text. Inr JUndefined)\<rparr>"

section \<open>What the specification says, in its own words\<close>

text \<open>
  A "title-cased" token: its first character in upper case, the others in lower case.
\<close>

fun title_case :: "string \<Rightarrow> string" where
  "title_case [] = []"
| "title_case (c # cs) = upper_char c # map lower_char cs"

text \<open>
  Removing duplicates "preserving first-occurrence order": the element at position
  \<open>i\<close> stays exactly when no earlier element has its key, and the elements that
  stay keep their order.
\<close>

definition first_occurrences :: "('a \<Rightarrow> 'k) \<Rightarrow> 'a list \<Rightarrow> 'a list" where
  "first_occurrences key xs =
     map (\<lambda>i. xs ! i) (filter (\<lambda>i. key (xs ! i) \<notin> key ` set (take i xs)) [0..<length xs])"

text \<open>
  The same with a set of keys already seen, for the induction over the list.
\<close>

definition first_occurrences_after :: "'k set \<Rightarrow> ('a \<Rightarrow> 'k) \<Rightarrow> 'a list \<Rightarrow> 'a list" where
  "first_occurrences_after seen key xs =
     map (\<lambda>i. xs ! i)
       (filter (\<lambda>i. key (xs ! i) \<notin> seen \<union> key ` set (take i xs)) [0..<length xs])"

section \<open>Properties of firstReachableImage\<close>

lemma DEFAULT_IMG_nonempty: "DEFAULT_IMG \<noteq> []"
  by (simp add: DEFAULT_IMG_def)

text \<open>The recursion of \<open>tryNext\<close> is unfolded by hand, one probe at a time.\<close>

declare tryNext.simps [simp del]

lemma tryNext_exhausted:
  "index st \<le> length urls \<Longrightarrow>
   \<forall>j. index st \<le> j \<and> j < length urls \<longrightarrow> browser (urls ! j) = OnError \<Longrightarrow>
   tryNext browser urls st =
     (st\<lparr>index := length urls, src_log := src_log st @ drop (index st) urls\<rparr>,
      Resolved (js_or (js_index urls (int (length urls) - 1)) DEFAULT_IMG))"
proof (induction browser urls st rule: tryNext.induct)
  case (1 browser urls st)
  show ?case
  proof (cases "index st \<ge> length urls")
    case True
    with "1.prems" have "index st = length urls" by simp
    then show ?thesis
      by (subst tryNext.simps) simp
  next
    case False
    then have lt: "index st < length urls" by simp
    have err: "browser (urls ! index st) = OnError"
      using "1.prems"(2) lt by simp
    let ?st' = "st\<lparr>index := index st + 1, src_log := src_log st @ [urls ! index st]\<rparr>"
    have step: "tryNext browser urls st = tryNext browser urls ?st'"
      using lt err by (subst tryNext.simps) (simp add: Let_def)
    have "tryNext browser urls ?st' =
      (?st'\<lparr>index := length urls, src_log := src_log ?st' @ drop (index ?st') urls\<rparr>,
       Resolved (js_or (js_index urls (int (length urls) - 1)) DEFAULT_IMG))"
      using "1.IH"[OF False refl refl err] lt "1.prems"(2) by simp
    then show ?thesis
      using step lt by (simp add: Cons_nth_drop_Suc)
  qed
qed

lemma tryNext_first_load:
  "index st \<le> i \<Longrightarrow> i < length urls \<Longrightarrow> browser (urls ! i) = OnLoad \<Longrightarrow>
   \<forall>j. index st \<le> j \<and> j < i \<longrightarrow> browser (urls ! j) = OnError \<Longrightarrow>
   tryNext browser urls st =
     (st\<lparr>index := Suc i,
         src_log := src_log st @ take (Suc i - index st) (drop (index st) urls)\<rparr>,
      Resolved (urls ! i))"
proof (induction browser urls st rule: tryNext.induct)
  case (1 browser urls st)
  have lt: "index st < length urls"
    using "1.prems"(1,2) by simp
  then have nge: "\<not> length urls \<le> index st" by simp
  show ?case
  proof (cases "index st = i")
    case True
    then show ?thesis
      using lt "1.prems"(3)
      by (subst tryNext.simps) (simp add: Let_def take_Suc_conv_app_nth hd_drop_conv_nth take_Suc)
  next
    case False
    then have less: "index st < i" using "1.prems"(1) by simp
    then have err: "browser (urls ! index st) = OnError"
      using "1.prems"(4) by simp
    let ?st' = "st\<lparr>index := index st + 1, src_log := src_log st @ [urls ! index st]\<rparr>"
    have step: "tryNext browser urls st = tryNext browser urls ?st'"
      using lt err by (subst tryNext.simps) (simp add: Let_def)
    have "tryNext browser urls ?st' =
      (?st'\<lparr>index := Suc i,
         src_log := src_log ?st' @ take (Suc i - index ?st') (drop (index ?st') urls)\<rparr>,
       Resolved (urls ! i))"
      using "1.IH"[OF nge refl refl err] less "1.prems"(2,3,4) by simp
    moreover have "take (Suc i - index st) (drop (index st) urls) =
        urls ! index st # take (i - index st) (drop (Suc (index st)) urls)"
      using lt less by (simp add: Cons_nth_drop_Suc[symmetric] Suc_diff_le)
    ultimately show ?thesis
      using step by simp
  qed
qed

text \<open>What the promise resolves with once the counter has passed the array.\<close>

lemma exhausted_value:
  "js_or (js_index urls (int (length urls) - 1)) DEFAULT_IMG =
     (if urls = [] \<or> last urls = [] then DEFAULT_IMG else last urls)"
proof (cases "urls = []")
  case True
  then show ?thesis by (simp add: js_or_def js_index_def)
next
  case False
  then have "nat (int (length urls) - 1) = length urls - 1"
    by (simp add: nat_diff_distrib')
  with False show ?thesis
    by (simp add: js_or_def js_index_def last_conv_nth)
qed

lemma firstReachableImage_miss:
  assumes "\<forall>u \<in> set urls. browser u = OnError"
  shows "firstReachableImage browser urls =
     (\<lparr>index = length urls, src_log = urls\<rparr>,
      Resolved (if urls = [] \<or> last urls = [] then DEFAULT_IMG else last urls))"
proof -
  have "tryNext browser urls \<lparr>index = 0, src_log = []\<rparr> =
     (\<lparr>index = 0, src_log = []\<rparr>\<lparr>index := length urls,
         src_log := src_log \<lparr>index = 0, src_log = []\<rparr> @
           drop (index \<lparr>index = 0, src_log = []\<rparr>) urls\<rparr>,
      Resolved (js_or (js_index urls (int (length urls) - 1)) DEFAULT_IMG))"
    by (rule tryNext_exhausted) (use assms in simp_all)
  then show ?thesis
    by (simp add: firstReachableImage_def exhausted_value)
qed

text \<open>The position of the first candidate that loads.\<close>

lemma first_load_position:
  assumes "\<exists>u \<in> set urls. browser u = OnLoad"
  defines "i \<equiv> length (takeWhile (\<lambda>u. browser u = OnError) urls)"
  shows "i < length urls" and "browser (urls ! i) = OnLoad"
    and "\<forall>j<i. browser (urls ! j) = OnError"
proof -
  let ?P = "\<lambda>u. browser u = OnError"
  from assms obtain u where u: "u \<in> set urls" "\<not> ?P u" by auto
  have "takeWhile ?P urls \<noteq> urls"
    using u by (auto simp: takeWhile_eq_all_conv)
  then have "dropWhile ?P urls \<noteq> []"
    by (metis takeWhile_dropWhile_id append_Nil2)
  then have "length (takeWhile ?P urls) + 0 <
      length (takeWhile ?P urls) + length (dropWhile ?P urls)"
    by simp
  then show lt: "i < length urls"
    unfolding i_def by (metis add.right_neutral length_append takeWhile_dropWhile_id)
  show "browser (urls ! i)  = OnLoad"
    using nth_length_takeWhile[OF lt[unfolded i_def]] unfolding i_def
    by (cases "browser (urls ! length (takeWhile ?P urls))") auto
  show "\<forall>j<i. browser (urls ! j) = OnError"
    unfolding i_def
    using nth_mem[of _ "takeWhile ?P urls"] set_takeWhileD[of _ ?P urls]
      takeWhile_nth[of _ ?P urls]
    by metis
qed

lemma firstReachableImage_hit:
  assumes "i < length urls" and "browser (urls ! i) = OnLoad"
    and "\<forall>j<i. browser (urls ! j) = OnError"
  shows "firstReachableImage browser urls =
     (\<lparr>index = Suc i, src_log = take (Suc i) urls\<rparr>, Resolved (urls ! i))"
proof -
  have "tryNext browser urls \<lparr>index = 0, src_log = []\<rparr> =
      (\<lparr>index = 0, src_log = []\<rparr>\<lparr>index := Suc i,
         src_log := src_log \<lparr>index = 0, src_log = []\<rparr> @
           take (Suc i - index \<lparr>index = 0, src_log = []\<rparr>)
             (drop (index \<lparr>index = 0, src_log = []\<rparr>) urls)\<rparr>,
      Resolved (urls ! i))"
    by (rule tryNext_first_load) (use assms in simp_all)
  then show ?thesis
    by (simp add: firstReachableImage_def)
qed

text \<open>
  Claim C1, as the code has it. The promise always resolves and never rejects. When
  every candidate fails to load, every candidate has been probed, in order, and the
  promise resolves with the last element of the list if that is a non-empty string;
  it resolves with the default path \<^verbatim>\<open>/staff/images/cta-default.jpg\<close> when the list is
  empty or its last element is the empty string.
\<close>

theorem firstReachableImage_always_resolves:
  "(\<exists>st v. firstReachableImage browser urls = (st, Resolved v)) \<and>
   ((\<forall>u \<in> set urls. browser u = OnError) \<longrightarrow>
      firstReachableImage browser urls =
        (\<lparr>index = length urls, src_log = urls\<rparr>,
         Resolved (if urls = [] \<or> last urls = [] then DEFAULT_IMG else last urls)))"
proof (cases "\<forall>u \<in> set urls. browser u = OnError")
  case True
  then show ?thesis
    using firstReachableImage_miss[of urls browser] by simp
next
  case False
  then have ex: "\<exists>u \<in> set urls. browser u = OnLoad"
    by (metis img_event.exhaust)
  have "\<exists>st v. firstReachableImage browser urls = (st, Resolved v)"
    using firstReachableImage_hit[OF first_load_position[OF ex]] by blast
  with False show ?thesis by blast
qed

text \<open>
  The claim as written fails where the last element is the empty string: with
  \<^verbatim>\<open>['a.jpg', '']\<close> and no image loading, the promise resolves with the default
  path, not with the last element.
\<close>

theorem firstReachableImage_last_counterexample:
  "never_loads ''a.jpg'' = OnError \<and> never_loads '''' = OnError \<and>
   snd (firstReachableImage never_loads [''a.jpg'', '''']) = Resolved DEFAULT_IMG \<and>
   DEFAULT_IMG \<noteq> last [''a.jpg'', '''']"
  by (simp add: firstReachableImage_def tryNext.simps never_loads_def js_or_def js_index_def
      DEFAULT_IMG_def)

theorem firstReachableImage_always_resolves_witness:
  "firstReachableImage never_loads [''a.jpg'', ''b.png''] =
     (\<lparr>index = 2, src_log = [''a.jpg'', ''b.png'']\<rparr>, Resolved ''b.png'') \<and>
   firstReachableImage never_loads [] =
     (\<lparr>index = 0, src_log = []\<rparr>, Resolved ''/staff/images/cta-default.jpg'')"
  using firstReachableImage_always_resolves[of never_loads "[''a.jpg'', ''b.png'']"]
    firstReachableImage_always_resolves[of never_loads "[]"]
  by (simp add: never_loads_def DEFAULT_IMG_def)

text \<open>
  Claim C2. When some candidate loads, let \<open>i\<close> be the position of the first one
  that does. The values assigned to \<^verbatim>\<open>img.src\<close> are exactly the candidates at
  positions \<open>0, ..., i\<close>, in list order, the promise resolves with the candidate at
  position \<open>i\<close>, and the counter stops at \<open>i + 1\<close>: no later candidate is probed.
\<close>

theorem firstReachableImage_in_order:
  assumes "\<exists>u \<in> set urls. browser u = OnLoad"
  shows "let i = length (takeWhile (\<lambda>u. browser u = OnError) urls) in
           i < length urls \<and> browser (urls ! i) = OnLoad \<and>
           (\<forall>j<i. browser (urls ! j) = OnError) \<and>
           firstReachableImage browser urls =
             (\<lparr>index = Suc i, src_log = take (Suc i) urls\<rparr>, Resolved (urls ! i))"
  using first_load_position[OF assms] firstReachableImage_hit[OF first_load_position[OF assms]]
  by (simp add: Let_def)

theorem firstReachableImage_in_order_witness:
  "firstReachableImage (loads_only ''c.png'')
     [''a.jpg'', ''b.jpg'', ''c.png'', ''d.jpg'', ''e.jpg''] =
   (\<lparr>index = 3, src_log = [''a.jpg'', ''b.jpg'', ''c.png'']\<rparr>, Resolved ''c.png'')"
  using firstReachableImage_in_order
    [of "[''a.jpg'', ''b.jpg'', ''c.png'', ''d.jpg'', ''e.jpg'']" "loads_only ''c.png''"]
  by (simp add: Let_def loads_only_def)

text \<open>
  Claim C4, as the code has it. The URL the promise resolves with is an element of
  the input list, except that it is the literal default path when the list is empty,
  and also when no candidate loads and the last element is the empty string.
\<close>

theorem firstReachableImage_result_member:
  "\<exists>st v. firstReachableImage browser urls = (st, Resolved v) \<and>
     (if urls = [] \<or> (last urls = [] \<and> (\<forall>u \<in> set urls. browser u = OnError))
      then v = DEFAULT_IMG else v \<in> set urls)"
proof (cases "\<forall>u \<in> set urls. browser u = OnError")
  case True
  then show ?thesis
    using firstReachableImage_miss[of urls browser] by auto
next
  case False
  then have ex: "\<exists>u \<in> set urls. browser u = OnLoad"
    by (metis img_event.exhaust)
  let ?i = "length (takeWhile (\<lambda>u. browser u = OnError) urls)"
  have "urls \<noteq> []" using ex by auto
  moreover have "urls ! ?i \<in> set urls"
    using first_load_position(1)[OF ex] by (rule nth_mem)
  moreover have "firstReachableImage browser urls =
      (\<lparr>index = Suc ?i, src_log = take (Suc ?i) urls\<rparr>, Resolved (urls ! ?i))"
    by (rule firstReachableImage_hit[OF first_load_position[OF ex]])
  ultimately show ?thesis
    using False by auto
qed

text \<open>
  The claim as written fails on the one-element list \<^verbatim>\<open>['']\<close> when the probe
  fails: the list is not empty, and the promise resolves with the default path,
  which is not an element of the list.
\<close>

theorem firstReachableImage_member_counterexample:
  "[''''] \<noteq> [] \<and> snd (firstReachableImage never_loads ['''']) = Resolved DEFAULT_IMG \<and>
   DEFAULT_IMG \<notin> set ['''']"
  by (simp add: firstReachableImage_def tryNext.simps never_loads_def js_or_def js_index_def
      DEFAULT_IMG_def)

theorem firstReachableImage_result_member_witness:
  "snd (firstReachableImage (loads_only ''b.png'') [''a.jpg'', ''b.png'', '''']) =
     Resolved ''b.png'' \<and>
   snd (firstReachableImage never_loads [''a.jpg'', ''b.png'']) = Resolved ''b.png'' \<and>
   snd (firstReachableImage never_loads [''a.jpg'', '''']) = Resolved DEFAULT_IMG"
proof -
  have a: "firstReachableImage (loads_only ''b.png'') [''a.jpg'', ''b.png'', ''''] =
      (\<lparr>index = 2, src_log = [''a.jpg'', ''b.png'']\<rparr>, Resolved ''b.png'')"
    by (simp add: firstReachableImage_def tryNext.simps loads_only_def Let_def)
  have b: "firstReachableImage never_loads [''a.jpg'', ''b.png''] =
      (\<lparr>index = 2, src_log = [''a.jpg'', ''b.png'']\<rparr>, Resolved ''b.png'')"
    by (simp add: firstReachableImage_def tryNext.simps never_loads_def js_or_def js_index_def
        Let_def)
  show ?thesis
    using firstReachableImage_result_member[of "loads_only ''b.png''" "[''a.jpg'', ''b.png'', '''']"]
      firstReachableImage_result_member[of never_loads "[''a.jpg'', ''b.png'']"]
      firstReachableImage_result_member[of never_loads "[''a.jpg'', '''']"]
    by (auto simp: a b never_loads_def loads_only_def)
qed

section \<open>Removing duplicates\<close>

lemma first_occurrences_after_empty:
  "first_occurrences_after {} key xs = first_occurrences key xs"
  by (simp add: first_occurrences_after_def first_occurrences_def)

lemma first_occurrences_after_Nil: "first_occurrences_after seen key [] = []"
  by (simp add: first_occurrences_after_def)

lemma map_filter_upt_Suc:
  "map f (filter P [0..<Suc n]) =
     (if P 0 then [f 0] else []) @ map (\<lambda>i. f (Suc i)) (filter (\<lambda>i. P (Suc i)) [0..<n])"
proof -
  have "[0..<Suc n] = 0 # map Suc [0..<n]"
    by (simp add: upt_conv_Cons map_Suc_upt del: upt_Suc)
  then show ?thesis
    by (simp add: filter_map comp_def del: upt_Suc)
qed

lemma first_occurrences_after_Cons:
  "first_occurrences_after seen key (x # xs) =
     (if key x \<in> seen then first_occurrences_after seen key xs
      else x # first_occurrences_after (insert (key x) seen) key xs)"
proof (cases "key x \<in> seen")
  case True
  then have same: "\<And>i. (key (xs ! i) \<noteq> key x \<and> key (xs ! i) \<notin> seen \<and>
        key (xs ! i) \<notin> key ` set (take i xs)) =
      (key (xs ! i) \<notin> seen \<and> key (xs ! i) \<notin> key ` set (take i xs))"
    by auto
  show ?thesis
    unfolding first_occurrences_after_def length_Cons map_filter_upt_Suc
    using True by (simp add: same)
next
  case False
  have same: "\<And>i. (key (xs ! i) \<notin> seen \<and> key (xs ! i) \<noteq> key x \<and>
        key (xs ! i) \<notin> key ` set (take i xs)) =
      (key (xs ! i) \<noteq> key x \<and> key (xs ! i) \<notin> seen \<and>
        key (xs ! i) \<notin> key ` set (take i xs))"
    by auto
  show ?thesis
    unfolding first_occurrences_after_def length_Cons map_filter_upt_Suc
    using False by (simp add: same)
qed

lemma set_first_occurrences_after:
  "key ` set (first_occurrences_after seen key xs) = key ` set xs - seen"
  by (induction xs arbitrary: seen)
     (auto simp: first_occurrences_after_Nil first_occurrences_after_Cons)

lemma first_occurrences_after_subset:
  "set (first_occurrences_after seen key xs) \<subseteq> set xs"
  by (induction xs arbitrary: seen)
     (auto simp: first_occurrences_after_Nil first_occurrences_after_Cons split: if_splits)

lemma distinct_first_occurrences_after:
  "distinct (map key (first_occurrences_after seen key xs))"
proof (induction xs arbitrary: seen)
  case Nil
  show ?case by (simp add: first_occurrences_after_Nil)
next
  case (Cons x xs)
  have "key x \<notin> key ` set (first_occurrences_after (insert (key x) seen) key xs)"
    by (simp add: set_first_occurrences_after)
  with Cons show ?case
    by (simp add: first_occurrences_after_Cons)
qed

text \<open>The set built by \<^verbatim>\<open>new Set\<close> lists the first occurrences, in order.\<close>

lemma foldl_Set_add:
  "foldl Set_add s xs = s @ first_occurrences_after (set s) (\<lambda>u. u) xs"
proof (induction xs arbitrary: s)
  case Nil
  show ?case by (simp add: first_occurrences_after_Nil)
next
  case (Cons x xs)
  show ?case
  proof (cases "x \<in> set s")
    case True
    then show ?thesis
      by (simp add: Cons first_occurrences_after_Cons Set_add_def[of s x])
  next
    case False
    then show ?thesis
      by (simp add: Cons first_occurrences_after_Cons Set_add_def[of s x])
  qed
qed

lemma new_Set_first_occurrences: "new_Set xs = first_occurrences (\<lambda>u. u) xs"
  by (simp add: new_Set_def foldl_Set_add first_occurrences_after_empty)

lemma distinct_new_Set: "distinct (new_Set xs)"
  using distinct_first_occurrences_after[of "\<lambda>u. u" "{}" xs]
  by (simp add: new_Set_def foldl_Set_add)

lemma set_new_Set: "set (new_Set xs) = set xs"
  using set_first_occurrences_after[of "\<lambda>u. u" "{}" xs]
  by (simp add: new_Set_def foldl_Set_add)

text \<open>The callback with \<^verbatim>\<open>seen\<close> keeps the first occurrence of every key.\<close>

lemma seen_filter_first_occurrences:
  "seen_filter seen items = first_occurrences_after seen toLowerCase items"
  by (induction items arbitrary: seen)
     (simp_all add: first_occurrences_after_Nil first_occurrences_after_Cons Let_def)

section \<open>Properties of imageCandidates\<close>

lemma photo_candidates_truthy: "[] \<notin> set (photo_candidates p)"
  by (auto simp: photo_candidates_def Boolean_str_def split: option.splits if_splits)

lemma roster_candidates_truthy: "[] \<notin> set (roster_candidates imgRoster slug)"
  by (auto simp: roster_candidates_def)

lemma year_candidates_truthy: "[] \<notin> set (year_candidates imgYears years slug)"
  by (auto simp: year_candidates_def split: option.splits if_splits)

lemma year_candidates_no_years: "year_candidates imgYears [] slug = []"
  by (simp add: year_candidates_def split: option.splits)

lemma filter_truthy_id: "[] \<notin> set xs \<Longrightarrow> filter Boolean_str xs = xs"
  by (induction xs) (auto simp: Boolean_str_def)

lemma imageCandidates_steps:
  "imageCandidates slug p years imgRoster imgYears d =
     new_Set (photo_candidates p @ roster_candidates imgRoster slug @
       year_candidates imgYears (default_param years []) slug @
       (if default_param d DEFAULT_IMG = [] then [] else [default_param d DEFAULT_IMG]))"
  by (simp add: imageCandidates_def candidates_def Array_from_def Let_def
      filter_truthy_id photo_candidates_truthy roster_candidates_truthy year_candidates_truthy)
     (simp add: Boolean_str_def)

text \<open>
  Claim C3. The list returned has no duplicate URLs. It is the list of pushed
  candidates, falsy ones dropped, with every URL kept at its first occurrence and
  nowhere else, so a fallback equal to an earlier candidate stands at that earlier
  position. With the default fallback path, and with any fallback that is not the
  empty string, the fallback path is in the list.
\<close>

theorem imageCandidates_no_duplicates:
  "distinct (imageCandidates slug p years imgRoster imgYears d) \<and>
   imageCandidates slug p years imgRoster imgYears d =
     first_occurrences (\<lambda>u. u)
       (filter Boolean_str (candidates slug p years imgRoster imgYears d)) \<and>
   DEFAULT_IMG \<in> set (imageCandidates slug p years imgRoster imgYears None) \<and>
   (default_param d DEFAULT_IMG \<noteq> [] \<longrightarrow>
      default_param d DEFAULT_IMG \<in> set (imageCandidates slug p years imgRoster imgYears d))"
proof -
  have "distinct (imageCandidates slug p years imgRoster imgYears d)"
    by (simp add: imageCandidates_def Array_from_def distinct_new_Set)
  moreover have "imageCandidates slug p years imgRoster imgYears d =
     first_occurrences (\<lambda>u. u)
       (filter Boolean_str (candidates slug p years imgRoster imgYears d))"
    by (simp add: imageCandidates_def Array_from_def new_Set_first_occurrences)
  moreover have "DEFAULT_IMG \<in> set (imageCandidates slug p years imgRoster imgYears None)"
    by (simp add: imageCandidates_steps set_new_Set default_param_def DEFAULT_IMG_nonempty)
  moreover have "default_param d DEFAULT_IMG \<noteq> [] \<longrightarrow>
      default_param d DEFAULT_IMG \<in> set (imageCandidates slug p years imgRoster imgYears d)"
    by (simp add: imageCandidates_steps set_new_Set)
  ultimately show ?thesis by blast
qed

theorem imageCandidates_no_duplicates_witness:
  "imageCandidates ''cta-default'' (Some \<lparr>photo = Some ''/p/jane.png''\<rparr>) (Some [''2021''])
     ''/staff/images'' (Some ''/years'') None =
   [''/p/jane.png'', ''/staff/images/cta-default.jpg'', ''/staff/images/cta-default.png'',
    ''/staff/images/cta-default.jpeg'', ''/years/2021/cta-default.jpg'',
    ''/years/2021/cta-default.png'', ''/years/2021/cta-default.jpeg''] \<and>
   candidates ''cta-default'' (Some \<lparr>photo = Some ''/p/jane.png''\<rparr>) (Some [''2021''])
     ''/staff/images'' (Some ''/years'') None =
   [''/p/jane.png'', ''/staff/images/cta-default.jpg'', ''/staff/images/cta-default.png'',
    ''/staff/images/cta-default.jpeg'', ''/years/2021/cta-default.jpg'',
    ''/years/2021/cta-default.png'', ''/years/2021/cta-default.jpeg'',
    ''/staff/images/cta-default.jpg''] \<and>
   DEFAULT_IMG \<in> set (imageCandidates ''cta-default'' (Some \<lparr>photo = Some ''/p/jane.png''\<rparr>)
     (Some [''2021'']) ''/staff/images'' (Some ''/years'') None)"
proof -
  have c: "candidates ''cta-default'' (Some \<lparr>photo = Some ''/p/jane.png''\<rparr>) (Some [''2021''])
     ''/staff/images'' (Some ''/years'') None =
   [''/p/jane.png'', ''/staff/images/cta-default.jpg'', ''/staff/images/cta-default.png'',
    ''/staff/images/cta-default.jpeg'', ''/years/2021/cta-default.jpg'',
    ''/years/2021/cta-default.png'', ''/years/2021/cta-default.jpeg'',
    ''/staff/images/cta-default.jpg'']"
    by (simp add: candidates_def photo_candidates_def roster_candidates_def
        year_candidates_def exts_def default_param_def DEFAULT_IMG_def Boolean_str_def)
  have i: "imageCandidates ''cta-default'' (Some \<lparr>photo = Some ''/p/jane.png''\<rparr>)
     (Some [''2021'']) ''/staff/images'' (Some ''/years'') None =
   [''/p/jane.png'', ''/staff/images/cta-default.jpg'', ''/staff/images/cta-default.png'',
    ''/staff/images/cta-default.jpeg'', ''/years/2021/cta-default.jpg'',
    ''/years/2021/cta-default.png'', ''/years/2021/cta-default.jpeg'']"
    by (simp add: imageCandidates_def c Array_from_def new_Set_def Set_add_def Boolean_str_def)
  have "DEFAULT_IMG \<in> set (imageCandidates ''cta-default''
      (Some \<lparr>photo = Some ''/p/jane.png''\<rparr>) (Some [''2021'']) ''/staff/images''
      (Some ''/years'') None)"
    using imageCandidates_no_duplicates[of "''cta-default''"
        "Some \<lparr>photo = Some ''/p/jane.png''\<rparr>" "Some [''2021'']" "''/staff/images''"
        "Some ''/years''" None]
    by blast
  with c i show ?thesis by simp
qed

text \<open>
  Claim C8. With an empty (or omitted) list of years, step 3 pushes nothing,
  whatever the year base path: the result is the one obtained with no year base
  path, and each of its elements is the explicit photo, a URL of the roster folder
  or the fallback.
\<close>

theorem imageCandidates_no_years:
  assumes "years = None \<or> years = Some []"
  shows "year_candidates imgYears (default_param years []) slug = [] \<and>
     imageCandidates slug p years imgRoster imgYears d =
       imageCandidates slug p years imgRoster None d \<and>
     set (imageCandidates slug p years imgRoster imgYears d) \<subseteq>
       set (photo_candidates p) \<union> set (roster_candidates imgRoster slug) \<union>
       {default_param d DEFAULT_IMG}"
proof -
  have ys: "default_param years [] = []"
    using assms by (auto simp: default_param_def)
  have "year_candidates imgYears (default_param years []) slug = []"
    by (simp add: ys year_candidates_no_years)
  moreover have "imageCandidates slug p years imgRoster imgYears d =
       imageCandidates slug p years imgRoster None d"
    by (simp add: imageCandidates_steps ys year_candidates_no_years)
  moreover have "set (imageCandidates slug p years imgRoster imgYears d) \<subseteq>
       set (photo_candidates p) \<union> set (roster_candidates imgRoster slug) \<union>
       {default_param d DEFAULT_IMG}"
    by (auto simp: imageCandidates_steps ys year_candidates_no_years set_new_Set)
  ultimately show ?thesis by blast
qed

theorem imageCandidates_no_years_witness:
  "imageCandidates ''jane'' None (Some []) ''/r'' (Some ''/years'') None =
     [''/r/jane.jpg'', ''/r/jane.png'', ''/r/jane.jpeg'', ''/staff/images/cta-default.jpg''] \<and>
   imageCandidates ''jane'' None (Some []) ''/r'' None None =
     [''/r/jane.jpg'', ''/r/jane.png'', ''/r/jane.jpeg'', ''/staff/images/cta-default.jpg'']"
proof -
  have "imageCandidates ''jane'' None (Some []) ''/r'' None None =
     [''/r/jane.jpg'', ''/r/jane.png'', ''/r/jane.jpeg'', ''/staff/images/cta-default.jpg'']"
    by (simp add: imageCandidates_def candidates_def photo_candidates_def
        roster_candidates_def year_candidates_def exts_def default_param_def DEFAULT_IMG_def
        Boolean_str_def Array_from_def new_Set_def Set_add_def)
  then show ?thesis
    using imageCandidates_no_years[of "Some []" "Some ''/years''" "''jane''" None "''/r''" None]
    by simp
qed

text \<open>
  Claim C9. Every element of the list returned is a non-empty string. A person
  whose photo is missing or the empty string gives the list that no person gives.
  When the caller passes the empty string as \<^verbatim>\<open>defaultImg\<close>, the list is the
  candidates of steps 1 to 3 without their duplicates: it has no fallback entry.
\<close>

theorem imageCandidates_truthy:
  "(\<forall>u \<in> set (imageCandidates slug p years imgRoster imgYears d). u \<noteq> []) \<and>
   (photo r = None \<or> photo r = Some [] \<longrightarrow>
      photo_candidates (Some r) = [] \<and>
      imageCandidates slug (Some r) years imgRoster imgYears d =
        imageCandidates slug None years imgRoster imgYears d) \<and>
   imageCandidates slug p years imgRoster imgYears (Some []) =
     new_Set (photo_candidates p @ roster_candidates imgRoster slug @
       year_candidates imgYears (default_param years []) slug)"
proof -
  have "[] \<notin> set (imageCandidates slug p years imgRoster imgYears d)"
    by (simp add: imageCandidates_steps set_new_Set photo_candidates_truthy
        roster_candidates_truthy year_candidates_truthy)
  then have "\<forall>u \<in> set (imageCandidates slug p years imgRoster imgYears d). u \<noteq> []"
    by metis
  moreover have "photo r = None \<or> photo r = Some [] \<longrightarrow>
      photo_candidates (Some r) = [] \<and>
      imageCandidates slug (Some r) years imgRoster imgYears d =
        imageCandidates slug None years imgRoster imgYears d"
    by (auto simp: imageCandidates_def candidates_def photo_candidates_def Boolean_str_def)
  moreover have "imageCandidates slug p years imgRoster imgYears (Some []) =
     new_Set (photo_candidates p @ roster_candidates imgRoster slug @
       year_candidates imgYears (default_param years []) slug)"
    by (simp add: imageCandidates_steps default_param_def)
  ultimately show ?thesis by blast
qed

theorem imageCandidates_truthy_witness:
  "imageCandidates ''jane'' (Some \<lparr>photo = Some ''''\<rparr>) None ''/r'' None (Some '''') =
     [''/r/jane.jpg'', ''/r/jane.png'', ''/r/jane.jpeg''] \<and>
   imageCandidates ''jane'' None None ''/r'' None (Some '''') =
     [''/r/jane.jpg'', ''/r/jane.png'', ''/r/jane.jpeg'']"
proof -
  have "new_Set (photo_candidates None @ roster_candidates ''/r'' ''jane'' @
       year_candidates None (default_param None []) ''jane'') =
     [''/r/jane.jpg'', ''/r/jane.png'', ''/r/jane.jpeg'']"
    by (simp add: photo_candidates_def roster_candidates_def year_candidates_def exts_def
        default_param_def new_Set_def Set_add_def)
  then show ?thesis
    using imageCandidates_truthy[of "''jane''" None None "''/r''" None "Some ''''"
        "\<lparr>photo = Some ''''\<rparr>"]
    by simp
qed

section \<open>Splitting, joining, trimming\<close>

lemma split_acc_nonempty: "split_acc sep cur s \<noteq> []"
  by (induction s arbitrary: cur) simp_all

lemma join_Cons: "ys \<noteq> [] \<Longrightarrow> join sep (x # ys) = x @ sep @ join sep ys"
  by (cases ys) simp_all

text \<open>Joining the pieces with the separator gives the string back.\<close>

lemma join_split_acc: "join [c] (split_acc (\<lambda>x. x = c) cur s) = cur @ s"
proof (induction s arbitrary: cur)
  case Nil
  show ?case by simp
next
  case (Cons a s)
  show ?case
  proof (cases "a = c")
    case True
    have "join [c] (cur # split_acc (\<lambda>x. x = c) [] s) =
        cur @ [c] @ join [c] (split_acc (\<lambda>x. x = c) [] s)"
      by (rule join_Cons) (rule split_acc_nonempty)
    then show ?thesis
      using True Cons.IH[of "[]"] by simp
  next
    case False
    then show ?thesis
      using Cons.IH[of "cur @ [a]"] by simp
  qed
qed

lemma join_split: "join [c] (split (\<lambda>x. x = c) s) = s"
  by (simp add: split_def join_split_acc)

text \<open>No piece holds a separator.\<close>

lemma split_acc_no_sep:
  "t \<in> set (split_acc sep cur s) \<Longrightarrow> \<forall>c \<in> set cur. \<not> sep c \<Longrightarrow> \<forall>c \<in> set t. \<not> sep c"
proof (induction s arbitrary: cur)
  case Nil
  then show ?case by simp
next
  case (Cons a s)
  show ?case
  proof (cases "sep a")
    case True
    then have "t = cur \<or> t \<in> set (split_acc sep [] s)"
      using Cons.prems(1) by simp
    then show ?thesis
    proof
      assume "t = cur"
      then show ?thesis using Cons.prems(2) by simp
    next
      assume "t \<in> set (split_acc sep [] s)"
      then show ?thesis by (rule Cons.IH) simp
    qed
  next
    case False
    then have "t \<in> set (split_acc sep (cur @ [a]) s)"
      using Cons.prems(1) by simp
    then show ?thesis
      by (rule Cons.IH) (use False Cons.prems(2) in simp)
  qed
qed

lemma split_no_sep: "t \<in> set (split sep s) \<Longrightarrow> \<forall>c \<in> set t. \<not> sep c"
  using split_acc_no_sep[of t sep "[]" s] by (simp add: split_def)

text \<open>There is one piece more than there are separators.\<close>

lemma length_split_acc: "length (split_acc sep cur s) = Suc (length (filter sep s))"
  by (induction s arbitrary: cur) simp_all

lemma length_split: "length (split sep s) = Suc (length (filter sep s))"
  by (simp add: split_def length_split_acc)

text \<open>
  \<open>trim\<close> removes white space at both ends and nothing else: what it removes is
  white space, and what it leaves neither starts nor ends with white space.
\<close>

lemma trim_decompose:
  "dropWhile js_whitespace s =
     trim s @ rev (takeWhile js_whitespace (rev (dropWhile js_whitespace s)))"
proof -
  let ?m = "dropWhile js_whitespace s"
  have "trim s @ rev (takeWhile js_whitespace (rev ?m)) =
      rev (takeWhile js_whitespace (rev ?m) @ dropWhile js_whitespace (rev ?m))"
    by (simp add: trim_def del: takeWhile_dropWhile_id)
  also have "\<dots> = rev (rev ?m)"
    by (simp only: takeWhile_dropWhile_id)
  finally show ?thesis by simp
qed

lemma trim_removes_whitespace:
  "\<exists>l r. s = l @ trim s @ r \<and> (\<forall>c \<in> set l. js_whitespace c) \<and>
     (\<forall>c \<in> set r. js_whitespace c)"
proof -
  let ?l = "takeWhile js_whitespace s"
  let ?m = "dropWhile js_whitespace s"
  let ?r = "rev (takeWhile js_whitespace (rev ?m))"
  have "s = ?l @ ?m" by simp
  then have "s = ?l @ trim s @ ?r"
    using trim_decompose[of s] by simp
  moreover have "\<forall>c \<in> set ?l. js_whitespace c"
    by (blast dest: set_takeWhileD)
  moreover have "\<forall>c \<in> set ?r. js_whitespace c"
    unfolding set_rev by (blast dest: set_takeWhileD)
  ultimately show ?thesis by blast
qed

lemma trim_ends:
  assumes "trim s \<noteq> []"
  shows "\<not> js_whitespace (hd (trim s))" and "\<not> js_whitespace (last (trim s))"
proof -
  let ?m = "dropWhile js_whitespace s"
  let ?d = "dropWhile js_whitespace (rev ?m)"
  have d: "?d \<noteq> []" using assms by (simp add: trim_def)
  then have "\<not> js_whitespace (hd ?d)"
    by (rule hd_dropWhile)
  then show "\<not> js_whitespace (last (trim s))"
    using d by (simp add: trim_def last_rev)
  have m: "?m \<noteq> []"
  proof
    assume e: "?m = []"
    have "?d = []" unfolding e by simp
    with d show False by contradiction
  qed
  then have "\<not> js_whitespace (hd ?m)"
    by (rule hd_dropWhile)
  moreover have "hd (trim s @ rev (takeWhile js_whitespace (rev ?m))) = hd (trim s)"
    using assms by (rule hd_append2)
  then have "hd (trim s) = hd ?m"
    by (simp only: trim_decompose[symmetric])
  ultimately show "\<not> js_whitespace (hd (trim s))" by simp
qed

lemma lower_char_other:
  "c \<notin> set ''ABCDEFGHIJKLMNOPQRSTUVWXYZ'' \<Longrightarrow> lower_char c = c"
  by (simp add: lower_char_def)

lemma upper_lower_letter:
  "c \<in> set ''ABCDEFGHIJKLMNOPQRSTUVWXYZ'' \<Longrightarrow>
     upper_char (lower_char c) = c \<and> upper_char c = c"
  by (auto simp: lower_char_def upper_char_def)

lemma upper_lower_char: "upper_char (lower_char c) = upper_char c"
proof (cases "c \<in> set ''ABCDEFGHIJKLMNOPQRSTUVWXYZ''")
  case True
  then show ?thesis using upper_lower_letter[of c] by simp
next
  case False
  then show ?thesis using lower_char_other[of c] by simp
qed

lemma format_word_title_case: "format_word w = title_case w"
  by (cases w)
     (simp_all add: format_word_def Boolean_str_def toLowerCase_def toUpperCase_def charAt0_def
       slice1_def Let_def upper_lower_char)

section \<open>Properties of formatNameFromSlug and parseInterests\<close>

text \<open>
  Claim C6, for a slug of ASCII characters. The tokens of the slug are its pieces
  between hyphens: joined with hyphens they give the slug back, and none of them
  holds a hyphen. The name is these tokens, each title-cased, joined with one
  space. So the empty slug gives the empty name, and an empty token between two
  hyphens gives an empty word between two spaces.
\<close>

theorem formatNameFromSlug_tokens:
  "(ascii s \<longrightarrow>
      (let tokens = split (\<lambda>c. c = CHR ''-'') s in
         join ''-'' tokens = s \<and> (\<forall>t \<in> set tokens. CHR ''-'' \<notin> set t) \<and>
         formatNameFromSlug (JStr s) = join '' '' (map title_case tokens))) \<and>
   formatNameFromSlug (JStr '''') = '''' \<and>
   formatNameFromSlug (JStr ''jane-doe'') = ''Jane Doe'' \<and>
   formatNameFromSlug (JStr ''a--b'') = ''A  B''"
proof -
  let ?tokens = "split (\<lambda>c. c = CHR ''-'') s"
  have "join ''-'' ?tokens = s"
    by (rule join_split)
  moreover have "\<forall>t \<in> set ?tokens. CHR ''-'' \<notin> set t"
    using split_no_sep[of _ "\<lambda>c. c = CHR ''-''" s] by blast
  moreover have "formatNameFromSlug (JStr s) = join '' '' (map title_case ?tokens)"
  proof (cases "s = []")
    case True
    then show ?thesis
      by (simp add: formatNameFromSlug_def split_def)
  next
    case False
    have "format_word = title_case"
      by (rule ext) (rule format_word_title_case)
    with False show ?thesis
      by (simp add: formatNameFromSlug_def)
  qed
  moreover have "formatNameFromSlug (JStr '''') = ''''"
    by (simp add: formatNameFromSlug_def)
  moreover have "formatNameFromSlug (JStr ''jane-doe'') = ''Jane Doe''"
    by (simp add: formatNameFromSlug_def split_def format_word_title_case upper_char_def
        lower_char_def)
  moreover have "formatNameFromSlug (JStr ''a--b'') = ''A  B''"
    by (simp add: formatNameFromSlug_def split_def format_word_title_case upper_char_def
        lower_char_def)
  ultimately show ?thesis
    by (simp add: Let_def)
qed

theorem formatNameFromSlug_tokens_witness:
  "ascii ''mARY-o--neil'' \<and>
   split (\<lambda>c. c = CHR ''-'') ''mARY-o--neil'' = [''mARY'', ''o'', '''', ''neil''] \<and>
   formatNameFromSlug (JStr ''mARY-o--neil'') = ''Mary O  Neil''"
proof -
  have a: "ascii ''mARY-o--neil''"
    by (simp add: ascii_def)
  have t: "split (\<lambda>c. c = CHR ''-'') ''mARY-o--neil'' = [''mARY'', ''o'', '''', ''neil'']"
    by (simp add: split_def)
  have "formatNameFromSlug (JStr ''mARY-o--neil'') =
      join '' '' (map title_case (split (\<lambda>c. c = CHR ''-'') ''mARY-o--neil''))"
    using formatNameFromSlug_tokens[of "''mARY-o--neil''"] a by (simp add: Let_def)
  then show ?thesis
    using a by (simp add: t upper_char_def lower_char_def)
qed

text \<open>
  Claim C5, for strings of ASCII characters and arrays of such strings. A falsy
  value (so \<^verbatim>\<open>null\<close>, \<^verbatim>\<open>undefined\<close>, \<^verbatim>\<open>false\<close>, \<^verbatim>\<open>0\<close>, the empty string) gives the
  empty list. A string is split at the delimiters comma, semicolon, bar and
  newline; an array of strings is taken element by element. In both cases the
  entries are trimmed, the empty ones dropped, and of the entries equal up to
  letter case only the first stays, as it was written and where it stood.
\<close>

theorem parseInterests_parses:
  "(\<not> Boolean v \<longrightarrow> parseInterests v = []) \<and>
   parseInterests JNull = [] \<and> parseInterests JUndefined = [] \<and>
   (interest_delimiter c \<longleftrightarrow> c = CHR '','' \<or> c = CHR '';'' \<or> c = CHR ''|'' \<or> c = CHR 0x0A) \<and>
   (ascii s \<longrightarrow>
      parseInterests (JStr s) =
        first_occurrences toLowerCase
          (filter (\<lambda>e. e \<noteq> []) (map trim (split interest_delimiter s)))) \<and>
   ((\<forall>e \<in> set ss. ascii e) \<longrightarrow>
      parseInterests (JArr (map JStr ss)) =
        first_occurrences toLowerCase (filter (\<lambda>e. e \<noteq> []) (map trim ss))) \<and>
   parseInterests (JStr ''AI, ai; Robotics'') = [''AI'', ''Robotics''] \<and>
   parseInterests (JArr [JStr ''x'', JStr ''x'', JStr ''y'']) = [''x'', ''y'']"
proof -
  have truthy: "Boolean_str = (\<lambda>e. e \<noteq> [])"
    by (simp add: fun_eq_iff Boolean_str_def)
  have falsy: "\<not> Boolean v \<longrightarrow> parseInterests v = []"
    by (simp add: parseInterests_def)
  have delim: "interest_delimiter c \<longleftrightarrow>
      c = CHR '','' \<or> c = CHR '';'' \<or> c = CHR ''|'' \<or> c = CHR 0x0A"
    by (simp add: interest_delimiter_def)
  have str: "parseInterests (JStr s) =
     first_occurrences toLowerCase
       (filter (\<lambda>e. e \<noteq> []) (map trim (split interest_delimiter s)))"
  proof (cases "s = []")
    case True
    then show ?thesis
      by (simp add: parseInterests_def split_def trim_def first_occurrences_def)
  next
    case False
    then show ?thesis
      by (simp add: parseInterests_def seen_filter_first_occurrences
          first_occurrences_after_empty truthy)
  qed
  have strs: "parseInterests (JArr (map JStr ss)) =
     first_occurrences toLowerCase (filter (\<lambda>e. e \<noteq> []) (map trim ss))"
    by (simp add: parseInterests_def seen_filter_first_occurrences
        first_occurrences_after_empty truthy comp_def)
  have ex1: "parseInterests (JStr ''AI, ai; Robotics'') = [''AI'', ''Robotics'']"
    by (simp add: parseInterests_def split_def interest_delimiter_def trim_def
        js_whitespace_def Boolean_str_def toLowerCase_def lower_char_def)
  have ex2: "parseInterests (JArr [JStr ''x'', JStr ''x'', JStr ''y'']) = [''x'', ''y'']"
    by (simp add: parseInterests_def trim_def js_whitespace_def Boolean_str_def
        toLowerCase_def lower_char_def)
  have nulls: "parseInterests JNull = [] \<and> parseInterests JUndefined = []"
    by (simp add: parseInterests_def)
  from falsy nulls delim str strs ex1 ex2 show ?thesis
    by blast
qed

theorem parseInterests_parses_witness:
  "\<not> Boolean (JNum 0) \<and> parseInterests (JNum 0) = [] \<and>
   \<not> Boolean (JBool False) \<and> parseInterests (JBool False) = [] \<and>
   \<not> Boolean (JStr '''') \<and> parseInterests (JStr '''') = [] \<and>
   ascii (''Dust |dust'' @ [CHR 0x0A] @ '' ;; Stars,DUST '') \<and>
   parseInterests (JStr (''Dust |dust'' @ [CHR 0x0A] @ '' ;; Stars,DUST '')) =
     first_occurrences toLowerCase [''Dust'', ''dust'', ''Stars'', ''DUST''] \<and>
   parseInterests (JStr (''Dust |dust'' @ [CHR 0x0A] @ '' ;; Stars,DUST '')) =
     [''Dust'', ''Stars''] \<and>
   ascii '' Gas'' \<and> ascii ''gas '' \<and> ascii ''  '' \<and>
   parseInterests (JArr (map JStr ['' Gas'', ''gas '', ''  ''])) =
     first_occurrences toLowerCase [''Gas'', ''gas'']"
proof -
  let ?s = "''Dust |dust'' @ [CHR 0x0A] @ '' ;; Stars,DUST ''"
  let ?ss = "['' Gas'', ''gas '', ''  '']"
  have a: "ascii ?s"
    by (simp add: ascii_def)
  have b: "\<forall>e \<in> set ?ss. ascii e"
    by (simp add: ascii_def)
  have entries: "filter (\<lambda>e. e \<noteq> []) (map trim (split interest_delimiter ?s)) =
      [''Dust'', ''dust'', ''Stars'', ''DUST'']"
    by (simp add: split_def interest_delimiter_def trim_def js_whitespace_def)
  have elems: "filter (\<lambda>e. e \<noteq> []) (map trim ?ss) = [''Gas'', ''gas'']"
    by (simp add: trim_def js_whitespace_def)
  have result: "parseInterests (JStr ?s) = [''Dust'', ''Stars'']"
    by (simp add: parseInterests_def split_def interest_delimiter_def trim_def
        js_whitespace_def Boolean_str_def toLowerCase_def lower_char_def)
  note inst0 = parseInterests_parses[of "JNum 0" "CHR '',''" ?s ?ss]
  note inst1 = parseInterests_parses[of "JBool False" "CHR '',''" ?s ?ss]
  note inst2 = parseInterests_parses[of "JStr ''''" "CHR '',''" ?s ?ss]
  have "parseInterests (JNum 0) = []"
    using inst0 by simp
  moreover have "parseInterests (JBool False) = []"
    using inst1 by simp
  moreover have "parseInterests (JStr '''') = []"
    using inst2 by simp
  moreover have "parseInterests (JStr ?s) =
      first_occurrences toLowerCase [''Dust'', ''dust'', ''Stars'', ''DUST'']"
    using inst0 a entries by metis
  moreover have "parseInterests (JArr (map JStr ?ss)) =
      first_occurrences toLowerCase [''Gas'', ''gas'']"
    using inst0 b elems by metis
  ultimately show ?thesis
    using a b result by simp
qed

section \<open>Properties of fetchYAML\<close>

lemma fetchYAML_caught:
  "fetchYAML_try w path = Inl e \<Longrightarrow>
   fetchYAML w path con = (con @ [(''Error fetching YAML:'', e)], Resolved (JObj []))"
  by (simp add: fetchYAML_def)

lemma fetchYAML_returned:
  "fetchYAML_try w path = Inr v \<Longrightarrow> fetchYAML w path con = (con, Resolved v)"
  by (simp add: fetchYAML_def)

text \<open>
  Claim C7. The promise of \<open>fetchYAML\<close> always resolves. When \<^verbatim>\<open>fetch\<close> rejects,
  when the response is not ok, when reading the body fails or when the YAML parser
  throws, the error is logged on the console and the promise resolves with the
  empty mapping.
\<close>

theorem fetchYAML_never_rejects:
  "(\<exists>con' v. fetchYAML w path con = (con', Resolved v)) \<and>
   (\<forall>e. fetch w path = Inl e \<longrightarrow>
      fetchYAML w path con = (con @ [(''Error fetching YAML:'', e)], Resolved (JObj []))) \<and>
   (\<forall>r. fetch w path = Inr r \<and> \<not> ok r \<longrightarrow>
      fetchYAML w path con =
        (con @ [(''Error fetching YAML:'',
                 Error (''Failed to fetch '' @ path @ '': '' @ statusText r))],
         Resolved (JObj []))) \<and>
   (\<forall>r e. fetch w path = Inr r \<and> ok r \<and> text_result r = Inl e \<longrightarrow>
      fetchYAML w path con = (con @ [(''Error fetching YAML:'', e)], Resolved (JObj []))) \<and>
   (\<forall>r t e. fetch w path = Inr r \<and> ok r \<and> text_result r = Inr t \<and>
        jsyaml_load w t = Inl e \<longrightarrow>
      fetchYAML w path con = (con @ [(''Error fetching YAML:'', e)], Resolved (JObj [])))"
proof -
  have "\<exists>con' v. fetchYAML w path con = (con', Resolved v)"
    by (cases "fetchYAML_try w path") (simp_all add: fetchYAML_def)
  moreover have "\<forall>e. fetch w path = Inl e \<longrightarrow>
      fetchYAML w path con = (con @ [(''Error fetching YAML:'', e)], Resolved (JObj []))"
    by (simp add: fetchYAML_caught fetchYAML_try_def)
  moreover have "\<forall>r. fetch w path = Inr r \<and> \<not> ok r \<longrightarrow>
      fetchYAML w path con =
        (con @ [(''Error fetching YAML:'',
                 Error (''Failed to fetch '' @ path @ '': '' @ statusText r))],
         Resolved (JObj []))"
    by (simp add: fetchYAML_caught fetchYAML_try_def)
  moreover have "\<forall>r e. fetch w path = Inr r \<and> ok r \<and> text_result r = Inl e \<longrightarrow>
      fetchYAML w path con = (con @ [(''Error fetching YAML:'', e)], Resolved (JObj []))"
    by (simp add: fetchYAML_caught fetchYAML_try_def)
  moreover have "\<forall>r t e. fetch w path = Inr r \<and> ok r \<and> text_result r = Inr t \<and>
        jsyaml_load w t = Inl e \<longrightarrow>
      fetchYAML w path con = (con @ [(''Error fetching YAML:'', e)], Resolved (JObj []))"
    by (simp add: fetchYAML_caught fetchYAML_try_def)
  ultimately show ?thesis by blast
qed

theorem fetchYAML_never_rejects_witness:
  "fetchYAML unreachable_world ''/data/staff.yml'' [] =
     ([(''Error fetching YAML:'', TypeError ''Failed to fetch'')], Resolved (JObj [])) \<and>
   fetchYAML not_found_world ''/data/staff.yml'' [] =
     ([(''Error fetching YAML:'', Error ''Failed to fetch /data/staff.yml: Not Found'')],
      Resolved (JObj [])) \<and>
   fetchYAML bad_yaml_world ''/data/staff.yml'' [] =
     ([(''Error fetching YAML:'', YAMLException ''unexpected end of the stream'')],
      Resolved (JObj []))"
  using fetchYAML_never_rejects[of unreachable_world "''/data/staff.yml''" "[]"]
    fetchYAML_never_rejects[of not_found_world "''/data/staff.yml''" "[]"]
    fetchYAML_never_rejects[of bad_yaml_world "''/data/staff.yml''" "[]"]
  by (simp add: unreachable_world_def not_found_world_def bad_yaml_world_def)

text \<open>
  Claim C10. When the fetch succeeds and the parser returns a falsy value (as it
  does for an empty document, \<^verbatim>\<open>null\<close>, \<^verbatim>\<open>false\<close> and \<^verbatim>\<open>0\<close>), the promise resolves
  with the empty mapping and nothing is logged. The value resolved is the one a
  failed fetch resolves with.
\<close>

theorem fetchYAML_falsy_document:
  assumes "fetch w path = Inr r" and "ok r" and "text_result r = Inr t"
    and "jsyaml_load w t = Inr v" and "\<not> Boolean v"
  shows "fetchYAML w path con = (con, Resolved (JObj [])) \<and>
     (\<forall>w' path' con' e. fetchYAML_try w' path' = Inl e \<longrightarrow>
        snd (fetchYAML w' path' con') = snd (fetchYAML w path con)) \<and>
     \<not> Boolean JUndefined \<and> \<not> Boolean JNull \<and> \<not> Boolean (JBool False) \<and>
     \<not> Boolean (JNum 0)"
proof -
  have "fetchYAML_try w path = Inr (JObj [])"
    using assms by (simp add: fetchYAML_try_def)
  then have ok: "fetchYAML w path con = (con, Resolved (JObj []))"
    by (rule fetchYAML_returned)
  moreover have "\<forall>w' path' con' e. fetchYAML_try w' path' = Inl e \<longrightarrow>
        snd (fetchYAML w' path' con') = snd (fetchYAML w path con)"
    by (simp add: ok fetchYAML_caught)
  ultimately show ?thesis by simp
qed

theorem fetchYAML_falsy_document_witness:
  "fetchYAML empty_yaml_world ''/data/staff.yml'' [] = ([], Resolved (JObj [])) \<and>
   snd (fetchYAML unreachable_world ''/data/staff.yml'' []) =
     snd (fetchYAML empty_yaml_world ''/data/staff.yml'' [])"
proof -
  have f: "fetch empty_yaml_world ''/data/staff.yml'' =
      Inr \<lparr>ok = True, statusText = ''OK'', text_result = Inr []\<rparr>"
    by (simp add: empty_yaml_world_def)
  have l: "jsyaml_load empty_yaml_world [] = Inr JUndefined"
    by (simp add: empty_yaml_world_def)
  have u: "fetchYAML_try unreachable_world ''/data/staff.yml'' =
      Inl (TypeError ''Failed to fetch'')"
    by (simp add: fetchYAML_try_def unreachable_world_def)
  have "fetchYAML empty_yaml_world ''/data/staff.yml'' [] = ([], Resolved (JObj [])) \<and>
     (\<forall>w' path' con' e. fetchYAML_try w' path' = Inl e \<longrightarrow>
        snd (fetchYAML w' path' con') =
        snd (fetchYAML empty_yaml_world ''/data/staff.yml'' [])) \<and>
     \<not> Boolean JUndefined \<and> \<not> Boolean JNull \<and> \<not> Boolean (JBool False) \<and>
     \<not> Boolean (JNum 0)"
    by (rule fetchYAML_falsy_document[OF f _ _ l]) simp_all
  then show ?thesis
    using u by blast
qed

end
